theory Spec2Isabelle
  imports Main "HOL-Library.AList"
begin

section \<open>Common notions\<close>

text \<open>
  Every \<^verbatim>\<open>throw new Error(msg)\<close> of the source is a value \<open>Error msg\<close>; the
  \<^verbatim>\<open>TypeError\<close> that the runtime raises for \<^verbatim>\<open>new Proxy\<close> on a non-object target
  is \<open>TypeError\<close>.
\<close>

datatype error = Error string | TypeError

text \<open>
  Callbacks (listeners, \<^verbatim>\<open>onEnter\<close>, \<^verbatim>\<open>onExit\<close>) are opaque functions of the
  host program, known here by their reference only. Calling one is recorded by appending
  an entry to a call log kept beside the fields of the object that made the call; a
  callback is taken not to call back into the object while it runs.

  A \<^verbatim>\<open>Set\<close> of the runtime iterates in insertion order and holds each member once:
  it is a list, with \<open>set_add\<close> for \<^verbatim>\<open>Set.prototype.add\<close> and \<open>set_delete\<close> for
  \<^verbatim>\<open>Set.prototype.delete\<close>.
\<close>

definition set_add :: "'a \<Rightarrow> 'a list \<Rightarrow> 'a list" where
  "set_add x xs = (if x \<in> set xs then xs else xs @ [x])"

definition set_delete :: "'a \<Rightarrow> 'a list \<Rightarrow> 'a list" where
  "set_delete x xs = removeAll x xs"

text \<open>How often a call log shows listener \<open>l\<close> called.\<close>

definition times_called :: "'l \<Rightarrow> ('l \<times> 'v) list \<Rightarrow> nat" where
  "times_called l log = length (filter (\<lambda>c. fst c = l) log)"

text \<open>\<^verbatim>\<open>src.forEach((x) => dst.add(x))\<close>\<close>

definition add_all :: "'a list \<Rightarrow> 'a list \<Rightarrow> 'a list" where
  "add_all src dst = fold set_add src dst"

section \<open>StateMachine (src/components/stateMachine.ts)\<close>

text \<open>
  A \<^verbatim>\<open>machineState\<close> is an object; the array handed to the constructor holds
  references to such objects, and \<^verbatim>\<open>Array.prototype.includes\<close> compares references.
  So a state is a reference \<open>ref\<close>, and a store \<open>h\<close> gives the object behind each
  reference. The callbacks are \<open>None\<close> where the optional property is absent.
\<close>

type_synonym ref = nat

record 'c machineState =
  name :: string
  onEnter :: "'c option"
  onExit :: "'c option"

text \<open>
  \<open>effects\<close> is the call log: each entry is the callback that ran and the value of
  \<^verbatim>\<open>this.currentState\<close> at the moment it ran.
\<close>

record 'c StateMachine =
  states :: "ref list"
  currentState :: ref
  effects :: "('c \<times> ref) list"

text \<open>\<^verbatim>\<open>cb?.()\<close> while the current state is \<open>cur\<close>.\<close>

definition call_opt :: "'c option \<Rightarrow> ref \<Rightarrow> ('c \<times> ref) list \<Rightarrow> ('c \<times> ref) list" where
  "call_opt cb cur log = (case cb of None \<Rightarrow> log | Some c \<Rightarrow> log @ [(c, cur)])"

definition new_StateMachine ::
  "(ref \<Rightarrow> 'c machineState) \<Rightarrow> ref list \<Rightarrow> error + 'c StateMachine" where
  "new_StateMachine h sts =
     (if length sts = 0
      then Inl (Error ''StateMachine must be initialized with at least one machine state.'')
      else let cur = sts ! 0
           in Inr \<lparr>states = sts, currentState = cur,
                   effects = call_opt (onEnter (h cur)) cur []\<rparr>)"

text \<open>
  \<open>transitionTo\<close> returns the machine as the call leaves it together with the error
  thrown, if any.
\<close>

definition transitionTo ::
  "(ref \<Rightarrow> 'c machineState) \<Rightarrow> ref \<Rightarrow> 'c StateMachine \<Rightarrow> 'c StateMachine \<times> error option" where
  "transitionTo h newState m =
     (if newState \<in> set (states m)
      then let m1 = m\<lparr>effects := call_opt (onExit (h (currentState m))) (currentState m) (effects m)\<rparr>;
               m2 = m1\<lparr>currentState := newState\<rparr>;
               m3 = m2\<lparr>effects := call_opt (onEnter (h (currentState m2))) (currentState m2) (effects m2)\<rparr>
           in (m3, None)
      else (m, Some (Error (''Invalid state: '' @ name (h newState)))))"

definition getCurrentState :: "'c StateMachine \<Rightarrow> ref" where
  "getCurrentState m = currentState m"

text \<open>A caller making the calls \<open>transitionTo t\<close> for each \<open>t\<close> of a list in turn,
  catching whatever a call throws.\<close>

fun transitions :: "(ref \<Rightarrow> 'c machineState) \<Rightarrow> ref list \<Rightarrow> 'c StateMachine \<Rightarrow> 'c StateMachine" where
  "transitions h [] m = m"
| "transitions h (t # ts) m = transitions h ts (fst (transitionTo h t m))"

text \<open>The example store of the tests: three objects, the third with the name of the first.\<close>

definition demo_store :: "ref \<Rightarrow> nat machineState" where
  "demo_store r =
     (if r = 0 then \<lparr>name = ''A'', onEnter = Some 10, onExit = Some 11\<rparr>
      else if r = 1 then \<lparr>name = ''B'', onEnter = Some 20, onExit = None\<rparr>
      else \<lparr>name = ''A'', onEnter = Some 30, onExit = Some 31\<rparr>)"


section \<open>Values of the runtime\<close>

text \<open>
  The state of the other three classes is a value of the host language. The values
  modelled are \<^verbatim>\<open>undefined\<close>, \<^verbatim>\<open>null\<close>, booleans, integer numbers, strings and plain
  objects, nested to any depth; an object is the list of its own properties in the order
  the runtime enumerates them, each name once. Arrays, numbers that are not integers,
  function-valued properties, property names that are array indices (which the runtime
  enumerates before the other names) and the prototype chain are outside these values.
\<close>

datatype jsval =
    JUndefined
  | JNull
  | JBool bool
  | JNum int
  | JStr string
  | JObj "(string \<times> jsval) list"

text \<open>\<^verbatim>\<open>typeof v\<close>\<close>

fun typeof :: "jsval \<Rightarrow> string" where
  "typeof JUndefined = ''undefined''"
| "typeof JNull = ''object''"
| "typeof (JBool b) = ''boolean''"
| "typeof (JNum n) = ''number''"
| "typeof (JStr s) = ''string''"
| "typeof (JObj ps) = ''object''"

text \<open>Truthiness, and \<^verbatim>\<open>a || b\<close>.\<close>

fun truthy :: "jsval \<Rightarrow> bool" where
  "truthy JUndefined = False"
| "truthy JNull = False"
| "truthy (JBool b) = b"
| "truthy (JNum n) = (n \<noteq> 0)"
| "truthy (JStr s) = (s \<noteq> [])"
| "truthy (JObj ps) = True"

definition js_or :: "jsval \<Rightarrow> jsval \<Rightarrow> jsval" where
  "js_or a b = (if truthy a then a else b)"

text \<open>\<^verbatim>\<open>obj[prop]\<close> and \<^verbatim>\<open>obj[prop] = value\<close> on a plain object: a missing property
  reads as \<^verbatim>\<open>undefined\<close>; a write replaces the property where it stands or appends it.\<close>

fun get_prop :: "jsval \<Rightarrow> string \<Rightarrow> jsval" where
  "get_prop (JObj ps) k = (case map_of ps k of None \<Rightarrow> JUndefined | Some v \<Rightarrow> v)"
| "get_prop v k = JUndefined"

fun set_prop :: "jsval \<Rightarrow> string \<Rightarrow> jsval \<Rightarrow> jsval" where
  "set_prop (JObj ps) k v = JObj (AList.update k v ps)"
| "set_prop x k v = x"

subsection \<open>JSON.stringify\<close>

definition digit_char :: "nat \<Rightarrow> char" where
  "digit_char n = ''0123456789abcdef'' ! n"

function show_nat :: "nat \<Rightarrow> string" where
  "show_nat n = (if n < 10 then [digit_char n] else show_nat (n div 10) @ [digit_char (n mod 10)])"
  by pat_completeness auto
termination
  by (relation "measure (\<lambda>n. n)") auto

definition show_int :: "int \<Rightarrow> string" where
  "show_int i = (if i < 0 then CHR ''-'' # show_nat (nat (- i)) else show_nat (nat i))"

text \<open>The escapes of \<^verbatim>\<open>QuoteJSONString\<close>: the quotation mark, the backslash, the five
  short escapes, and \<^verbatim>\<open>\u00XX\<close> for the other characters below U+0020.\<close>

definition escape_char :: "char \<Rightarrow> string" where
  "escape_char c =
     (if c = CHR 0x22 then [CHR 0x5C, CHR 0x22]
      else if c = CHR 0x5C then [CHR 0x5C, CHR 0x5C]
      else if c = CHR 0x08 then [CHR 0x5C, CHR ''b'']
      else if c = CHR 0x09 then [CHR 0x5C, CHR ''t'']
      else if c = CHR 0x0A then [CHR 0x5C, CHR ''n'']
      else if c = CHR 0x0C then [CHR 0x5C, CHR ''f'']
      else if c = CHR 0x0D then [CHR 0x5C, CHR ''r'']
      else if (of_char c :: nat) < 32
        then [CHR 0x5C, CHR ''u'', CHR ''0'', CHR ''0'',
              digit_char ((of_char c :: nat) div 16), digit_char ((of_char c :: nat) mod 16)]
      else [c])"

definition quote :: "string \<Rightarrow> string" where
  "quote s = CHR 0x22 # concat (map escape_char s) @ [CHR 0x22]"

fun join_comma :: "string list \<Rightarrow> string" where
  "join_comma [] = []"
| "join_comma [s] = s"
| "join_comma (s # t # ss) = s @ '','' @ join_comma (t # ss)"

text \<open>\<^verbatim>\<open>JSON.stringify(v)\<close> with one argument. The result \<open>None\<close> is \<^verbatim>\<open>undefined\<close>,
  which is what the call returns for \<^verbatim>\<open>undefined\<close>; a property whose value is
  \<^verbatim>\<open>undefined\<close> is left out of its object.\<close>

fun JSON_stringify :: "jsval \<Rightarrow> string option"
  and stringify_members :: "(string \<times> jsval) list \<Rightarrow> string list" where
  "JSON_stringify JUndefined = None"
| "JSON_stringify JNull = Some ''null''"
| "JSON_stringify (JBool b) = Some (if b then ''true'' else ''false'')"
| "JSON_stringify (JNum n) = Some (show_int n)"
| "JSON_stringify (JStr s) = Some (quote s)"
| "JSON_stringify (JObj ps) = Some (''{'' @ join_comma (stringify_members ps) @ ''}'')"
| "stringify_members [] = []"
| "stringify_members ((k, v) # ps) =
     (case JSON_stringify v of
        None \<Rightarrow> stringify_members ps
      | Some s \<Rightarrow> (quote k @ '':'' @ s) # stringify_members ps)"

subsection \<open>SetStateAction\<close>

text \<open>
  \<^verbatim>\<open>type SetStateAction<T> = T | ((prevState: T) => T)\<close>: an action is \<open>Literal v\<close>, a
  value of the state type, or \<open>Updater f\<close>, a function over it, pure. The state type may
  hold functions itself: \<open>callable v\<close> is \<open>Some g\<close> when the value \<open>v\<close> is a function,
  which called with one argument computes \<open>g\<close>, and \<open>None\<close> when \<^verbatim>\<open>typeof v\<close> is not
  \<^verbatim>\<open>"function"\<close>.
\<close>

datatype 'a SetStateAction = Literal 'a | Updater "'a \<Rightarrow> 'a"

text \<open>\<^verbatim>\<open>typeof value === "function"\<close>\<close>

fun isFunction :: "('a \<Rightarrow> ('a \<Rightarrow> 'a) option) \<Rightarrow> 'a SetStateAction \<Rightarrow> bool" where
  "isFunction callable (Updater f) = True"
| "isFunction callable (Literal v) = (callable v \<noteq> None)"

text \<open>
  \<^verbatim>\<open>action(current)\<close>, for an action that is a function, and \<^verbatim>\<open>action\<close> taken as the
  new state, for one that is not. The guard of \<open>resolve_action\<close> sends no action to the
  other case of either; there the result is the current state.
\<close>

fun call_action :: "('a \<Rightarrow> ('a \<Rightarrow> 'a) option) \<Rightarrow> 'a SetStateAction \<Rightarrow> 'a \<Rightarrow> 'a" where
  "call_action callable (Updater f) current = f current"
| "call_action callable (Literal v) current =
     (case callable v of Some g \<Rightarrow> g current | None \<Rightarrow> current)"

fun action_value :: "'a SetStateAction \<Rightarrow> 'a \<Rightarrow> 'a" where
  "action_value (Literal v) current = v"
| "action_value (Updater f) current = current"

text \<open>\<^verbatim>\<open>this.isFunction(action) ? action(current) : action\<close>\<close>

definition resolve_action ::
  "('a \<Rightarrow> ('a \<Rightarrow> 'a) option) \<Rightarrow> 'a SetStateAction \<Rightarrow> 'a \<Rightarrow> 'a" where
  "resolve_action callable action current =
     (if isFunction callable action then call_action callable action current
      else action_value action current)"

text \<open>No value of \<open>jsval\<close> is a function; \<open>resolve\<close> is \<open>resolve_action\<close> on these
  values.\<close>

definition jsval_callable :: "jsval \<Rightarrow> (jsval \<Rightarrow> jsval) option" where
  "jsval_callable v = None"

definition resolve :: "jsval SetStateAction \<Rightarrow> jsval \<Rightarrow> jsval" where
  "resolve action current = resolve_action jsval_callable action current"

section \<open>ComponentStateManager (src/components/componentState.ts)\<close>

text \<open>A listener takes no argument; \<open>c_calls\<close> is the log of the listeners called.\<close>

record ('a, 'l) ComponentStateManager =
  c_currentState :: 'a
  c_listeners :: "'l list"
  c_calls :: "'l list"

definition new_ComponentStateManager :: "'a \<Rightarrow> ('a, 'l) ComponentStateManager" where
  "new_ComponentStateManager initialState =
     \<lparr>c_currentState = initialState, c_listeners = [], c_calls = []\<rparr>"

definition Component_getState :: "('a, 'l) ComponentStateManager \<Rightarrow> 'a" where
  "Component_getState m = c_currentState m"

definition Component_setState ::
  "('a \<Rightarrow> ('a \<Rightarrow> 'a) option) \<Rightarrow> 'a SetStateAction \<Rightarrow>
   ('a, 'l) ComponentStateManager \<Rightarrow> ('a, 'l) ComponentStateManager" where
  "Component_setState callable action m =
     (let m1 = m\<lparr>c_currentState := resolve_action callable action (c_currentState m)\<rparr>
      in m1\<lparr>c_calls := c_calls m1 @ c_listeners m1\<rparr>)"

text \<open>\<open>subscribe\<close> returns the object as the call leaves it and the closure
  \<^verbatim>\<open>() => this.listeners.delete(callback)\<close>.\<close>

definition Component_subscribe ::
  "'l \<Rightarrow> ('a, 'l) ComponentStateManager \<Rightarrow>
   ('a, 'l) ComponentStateManager \<times> (('a, 'l) ComponentStateManager \<Rightarrow> ('a, 'l) ComponentStateManager)" where
  "Component_subscribe callback m =
     (m\<lparr>c_listeners := set_add callback (c_listeners m)\<rparr>,
      \<lambda>m'. m'\<lparr>c_listeners := set_delete callback (c_listeners m')\<rparr>)"

text \<open>A host making the calls \<open>setState a\<close> for each \<open>a\<close> of a list in turn.\<close>

fun Component_setStates ::
  "('a \<Rightarrow> ('a \<Rightarrow> 'a) option) \<Rightarrow> 'a SetStateAction list \<Rightarrow>
   ('a, 'l) ComponentStateManager \<Rightarrow> ('a, 'l) ComponentStateManager" where
  "Component_setStates callable [] m = m"
| "Component_setStates callable (a # as) m =
     Component_setStates callable as (Component_setState callable a m)"

text \<open>What the specification says \<open>get\<close> returns after a sequence of \<open>set\<close> calls: the
  actions folded over the initial value, a function applied to the accumulated value, a
  literal replacing it.\<close>

fun fold_actions :: "'a SetStateAction list \<Rightarrow> 'a \<Rightarrow> 'a" where
  "fold_actions [] acc = acc"
| "fold_actions (Literal v # as) acc = fold_actions as v"
| "fold_actions (Updater f # as) acc = fold_actions as (f acc)"

text \<open>A state type that holds numbers and functions: \<open>Fn k\<close> is the function
  \<^verbatim>\<open>() => k\<close>.\<close>

datatype demo_value = Num int | Fn int

fun demo_callable :: "demo_value \<Rightarrow> (demo_value \<Rightarrow> demo_value) option" where
  "demo_callable (Num n) = None"
| "demo_callable (Fn k) = Some (\<lambda>prev. Num k)"

section \<open>GlobalStateManager (src/components/globalState.ts)\<close>

text \<open>A listener takes the new state; \<open>g_calls\<close> logs each call with its argument.\<close>

record 'l GlobalStateManager =
  g_currentState :: jsval
  g_listeners :: "'l list"
  g_calls :: "('l \<times> jsval) list"

definition new_GlobalStateManager :: "jsval \<Rightarrow> 'l GlobalStateManager" where
  "new_GlobalStateManager initialState =
     \<lparr>g_currentState = initialState, g_listeners = [], g_calls = []\<rparr>"

text \<open>
  The static field \<^verbatim>\<open>GlobalStateManager.instance\<close> is a slot that is \<open>None\<close> until
  the first \<open>getInstance\<close>. The static methods take the slot and return it as they leave
  it; \<open>getInstance\<close> also returns the object now in the slot. An omitted argument is
  \<^verbatim>\<open>undefined\<close>.
\<close>

definition getInstance ::
  "jsval \<Rightarrow> 'l GlobalStateManager option \<Rightarrow> 'l GlobalStateManager option \<times> 'l GlobalStateManager" where
  "getInstance initialState instance =
     (case instance of
        None \<Rightarrow> (let i = new_GlobalStateManager (js_or initialState (JObj []))
                 in (Some i, i))
      | Some i \<Rightarrow> (Some i, i))"

definition resetInstance :: "jsval \<Rightarrow> 'l GlobalStateManager option \<Rightarrow> 'l GlobalStateManager option" where
  "resetInstance initialState instance =
     Some (new_GlobalStateManager (js_or initialState (JObj [])))"

definition Global_getState :: "'l GlobalStateManager \<Rightarrow> jsval" where
  "Global_getState m = g_currentState m"

definition Global_setState :: "jsval SetStateAction \<Rightarrow> 'l GlobalStateManager \<Rightarrow> 'l GlobalStateManager" where
  "Global_setState action m =
     (let m1 = m\<lparr>g_currentState := resolve action (g_currentState m)\<rparr>
      in m1\<lparr>g_calls := g_calls m1 @ map (\<lambda>listener. (listener, g_currentState m1)) (g_listeners m1)\<rparr>)"

definition Global_subscribe ::
  "'l \<Rightarrow> 'l GlobalStateManager \<Rightarrow>
   'l GlobalStateManager \<times> ('l GlobalStateManager \<Rightarrow> 'l GlobalStateManager)" where
  "Global_subscribe callback m =
     (m\<lparr>g_listeners := set_add callback (g_listeners m)\<rparr>,
      \<lambda>m'. m'\<lparr>g_listeners := set_delete callback (g_listeners m')\<rparr>)"

fun Global_setStates ::
  "jsval SetStateAction list \<Rightarrow> 'l GlobalStateManager \<Rightarrow> 'l GlobalStateManager" where
  "Global_setStates [] m = m"
| "Global_setStates (a # as) m = Global_setStates as (Global_setState a m)"

section \<open>ProxyStateManager (src/components/proxyState.ts)\<close>

text \<open>A listener takes the state; \<open>calls\<close> logs each call with its argument.\<close>

record 'l ProxyStateManager =
  state :: jsval
  listeners :: "'l list"
  isBatchingUpdates :: bool
  pendingNotifications :: "'l list"
  hasStateChanged :: bool
  calls :: "('l \<times> jsval) list"

text \<open>
  \<^verbatim>\<open>new Proxy(state, handler)\<close> throws a \<^verbatim>\<open>TypeError\<close> unless the target is an
  object. The handler has a \<^verbatim>\<open>set\<close> trap only, so a proxy reads as its target does: the
  proxy is the value of its target, and the trap is \<open>handler_set\<close> below.
\<close>

fun is_Object :: "jsval \<Rightarrow> bool" where
  "is_Object (JObj ps) = True"
| "is_Object v = False"

definition createProxy :: "jsval \<Rightarrow> error + jsval" where
  "createProxy st = (if is_Object st then Inr st else Inl TypeError)"

definition new_ProxyStateManager :: "jsval \<Rightarrow> error + 'l ProxyStateManager" where
  "new_ProxyStateManager initialState =
     (if typeof initialState \<noteq> ''object'' \<or> initialState = JNull
      then Inl (Error (''ProxyStateManager can only manage state of type ''
                       @ [CHR 0x27] @ ''object'' @ [CHR 0x27] @ ''.''))
      else (case createProxy initialState of
              Inl e \<Rightarrow> Inl e
            | Inr p \<Rightarrow> Inr \<lparr>state = p, listeners = [], isBatchingUpdates = False,
                             pendingNotifications = [], hasStateChanged = False, calls = []\<rparr>))"

definition notifyListeners :: "'l ProxyStateManager \<Rightarrow> 'l ProxyStateManager" where
  "notifyListeners m = m\<lparr>calls := calls m @ map (\<lambda>listener. (listener, state m)) (listeners m)\<rparr>"

text \<open>\<^verbatim>\<open>this.listeners.forEach((listener) => this.pendingNotifications.add(listener))\<close>\<close>

definition queueListeners :: "'l ProxyStateManager \<Rightarrow> 'l ProxyStateManager" where
  "queueListeners m = m\<lparr>pendingNotifications := add_all (listeners m) (pendingNotifications m)\<rparr>"

text \<open>The \<^verbatim>\<open>set\<close> trap of the handler, for a write to property \<open>prop\<close> of the proxy that
  is the current state. (A write through a proxy that \<open>setState\<close> has replaced since is
  not modelled.)\<close>

definition handler_set :: "string \<Rightarrow> jsval \<Rightarrow> 'l ProxyStateManager \<Rightarrow> 'l ProxyStateManager" where
  "handler_set prop val m =
     (let oldValue = get_prop (state m) prop;
          m1 = m\<lparr>state := set_prop (state m) prop val\<rparr>
      in if JSON_stringify oldValue \<noteq> JSON_stringify val
         then let m2 = m1\<lparr>hasStateChanged := True\<rparr>
              in if \<not> isBatchingUpdates m2 then notifyListeners m2 else queueListeners m2
         else m1)"

definition Proxy_getState :: "'l ProxyStateManager \<Rightarrow> jsval" where
  "Proxy_getState m = state m"

text \<open>\<open>setState\<close> returns the object as the call leaves it together with the error
  thrown, if any: \<open>createProxy\<close> throws before \<^verbatim>\<open>this.state\<close> is assigned.\<close>

definition Proxy_setState ::
  "jsval SetStateAction \<Rightarrow> 'l ProxyStateManager \<Rightarrow> 'l ProxyStateManager \<times> error option" where
  "Proxy_setState action m =
     (let newState = resolve action (state m)
      in if JSON_stringify (state m) \<noteq> JSON_stringify newState
         then (case createProxy newState of
                 Inl e \<Rightarrow> (m, Some e)
               | Inr p \<Rightarrow>
                   (let m1 = m\<lparr>state := p\<rparr>
                    in (if \<not> isBatchingUpdates m1 then notifyListeners m1 else queueListeners m1,
                        None)))
         else (m, None))"

definition unsubscribe :: "'l \<Rightarrow> 'l ProxyStateManager \<Rightarrow> 'l ProxyStateManager" where
  "unsubscribe listener m = m\<lparr>listeners := set_delete listener (listeners m)\<rparr>"

definition Proxy_subscribe ::
  "'l \<Rightarrow> 'l ProxyStateManager \<Rightarrow>
   'l ProxyStateManager \<times> ('l ProxyStateManager \<Rightarrow> 'l ProxyStateManager)" where
  "Proxy_subscribe listener m =
     (m\<lparr>listeners := set_add listener (listeners m)\<rparr>, unsubscribe listener)"

definition beginBatchUpdates :: "'l ProxyStateManager \<Rightarrow> 'l ProxyStateManager" where
  "beginBatchUpdates m = m\<lparr>isBatchingUpdates := True\<rparr>"

definition endBatchUpdates :: "'l ProxyStateManager \<Rightarrow> 'l ProxyStateManager" where
  "endBatchUpdates m =
     (let m1 = (if length (pendingNotifications m) > 0
                then (let m' = m\<lparr>calls := calls m
                                  @ map (\<lambda>listener. (listener, state m)) (pendingNotifications m)\<rparr>
                      in m'\<lparr>pendingNotifications := []\<rparr>)
                else m)
      in m1\<lparr>isBatchingUpdates := False\<rparr>)"

subsection \<open>The host program's writes to the state\<close>

text \<open>
  The host mutates the state by an assignment \<^verbatim>\<open>getState().k1.k2...kn = v\<close>. The
  reads \<^verbatim>\<open>.k1\<close>, ..., up to the last name go to the target (there is no \<^verbatim>\<open>get\<close>
  trap) and return the nested objects themselves; only a write whose path is a single
  name is a write to the proxy. \<open>write_path\<close> is the assignment on plain values: \<open>None\<close>
  when a name on the way holds no object, where the host's assignment throws or has no
  effect.
\<close>

fun write_path :: "string list \<Rightarrow> jsval \<Rightarrow> jsval \<Rightarrow> jsval option" where
  "write_path [] v t = None"
| "write_path [k] v (JObj ps) = Some (JObj (AList.update k v ps))"
| "write_path (k # k' # ks) v (JObj ps) =
     (case map_of ps k of
        None \<Rightarrow> None
      | Some c \<Rightarrow> (case write_path (k' # ks) v c of
                    None \<Rightarrow> None
                  | Some c' \<Rightarrow> Some (JObj (AList.update k c' ps))))"
| "write_path ks v t = None"

definition assign :: "string list \<Rightarrow> jsval \<Rightarrow> 'l ProxyStateManager \<Rightarrow> 'l ProxyStateManager" where
  "assign path v m =
     (case path of
        [] \<Rightarrow> m
      | [k] \<Rightarrow> handler_set k v m
      | _ \<Rightarrow> (case write_path path v (state m) of
                None \<Rightarrow> m
              | Some s' \<Rightarrow> m\<lparr>state := s'\<rparr>))"

text \<open>The calls a host makes on a manager, and a host making a list of them in turn,
  catching whatever a call throws.\<close>

datatype 'l call =
    SetState "jsval SetStateAction"
  | Assign "string list" jsval
  | Subscribe 'l
  | Unsubscribe 'l
  | BeginBatchUpdates
  | EndBatchUpdates

fun step :: "'l call \<Rightarrow> 'l ProxyStateManager \<Rightarrow> 'l ProxyStateManager" where
  "step (SetState a) m = fst (Proxy_setState a m)"
| "step (Assign path v) m = assign path v m"
| "step (Subscribe l) m = fst (Proxy_subscribe l m)"
| "step (Unsubscribe l) m = unsubscribe l m"
| "step BeginBatchUpdates m = beginBatchUpdates m"
| "step EndBatchUpdates m = endBatchUpdates m"

fun run :: "'l call list \<Rightarrow> 'l ProxyStateManager \<Rightarrow> 'l ProxyStateManager" where
  "run [] m = m"
| "run (c # cs) m = run cs (step c m)"

text \<open>The calls that mutate the state: \<open>setState\<close> and assignments.\<close>

fun is_mutation :: "'l call \<Rightarrow> bool" where
  "is_mutation (SetState a) = True"
| "is_mutation (Assign path v) = True"
| "is_mutation c = False"

text \<open>A call that the manager takes for a change of the state when made on \<open>m\<close>: a
  \<open>setState\<close> whose new state serializes differently from the current one and can be
  wrapped, or an assignment to a property of the proxy whose new value serializes
  differently from the old one.\<close>

fun detected_change :: "'l call \<Rightarrow> 'l ProxyStateManager \<Rightarrow> bool" where
  "detected_change (SetState a) m =
     (JSON_stringify (state m) \<noteq> JSON_stringify (resolve a (state m))
      \<and> is_Object (resolve a (state m)))"
| "detected_change (Assign [k] v) m =
     (JSON_stringify (get_prop (state m) k) \<noteq> JSON_stringify v)"
| "detected_change c m = False"

text \<open>What holds of every manager a program can reach: the two sets hold each listener
  once, and nothing is pending outside a batch.\<close>

definition wf :: "'l ProxyStateManager \<Rightarrow> bool" where
  "wf m = (distinct (listeners m) \<and> distinct (pendingNotifications m)
           \<and> (isBatchingUpdates m \<or> pendingNotifications m = []))"

text \<open>The manager of the tests' shape, with two listeners, and its state.\<close>

definition demo_state :: jsval where
  "demo_state = JObj [(''count'', JNum 0), (''nested'', JObj [(''x'', JNum 0)])]"

definition demo_manager :: "nat ProxyStateManager" where
  "demo_manager =
     \<lparr>state = demo_state, listeners = [7, 8], isBatchingUpdates = False,
      pendingNotifications = [], hasStateChanged = False, calls = []\<rparr>"

text \<open>Listener \<open>l\<close> is registered at the moment of some detected change while the calls
  \<open>cs\<close> are made, in turn, from \<open>m\<close>.\<close>

fun registered_at_change :: "'l \<Rightarrow> 'l call list \<Rightarrow> 'l ProxyStateManager \<Rightarrow> bool" where
  "registered_at_change l [] m = False"
| "registered_at_change l (c # cs) m =
     ((detected_change c m \<and> l \<in> set (listeners m)) \<or> registered_at_change l cs (step c m))"

section \<open>Properties of StateMachine\<close>

lemma transitionTo_reject:
  "newState \<notin> set (states m) \<Longrightarrow>
   transitionTo h newState m = (m, Some (Error (''Invalid state: '' @ name (h newState))))"
  by (simp add: transitionTo_def)

lemma transitionTo_accept:
  "newState \<in> set (states m) \<Longrightarrow>
   transitionTo h newState m =
     (m\<lparr>currentState := newState,
        effects := call_opt (onEnter (h newState)) newState
                     (call_opt (onExit (h (currentState m))) (currentState m) (effects m))\<rparr>, None)"
  by (simp add: transitionTo_def Let_def)

lemma transitionTo_states: "states (fst (transitionTo h t m)) = states m"
  by (simp add: transitionTo_def Let_def)

lemma transitionTo_current_member:
  "currentState m \<in> set (states m) \<Longrightarrow>
   currentState (fst (transitionTo h t m)) \<in> set (states m)"
  by (simp add: transitionTo_def Let_def)

lemma transitions_inv:
  "currentState m \<in> set (states m) \<Longrightarrow>
   states (transitions h ts m) = states m \<and>
   currentState (transitions h ts m) \<in> set (states m)"
proof (induction ts arbitrary: m)
  case Nil
  then show ?case by simp
next
  case (Cons t ts)
  let ?m' = "fst (transitionTo h t m)"
  have st: "states ?m' = states m" by (rule transitionTo_states)
  have "currentState ?m' \<in> set (states ?m')"
    using Cons.prems transitionTo_current_member [of m h t] st by simp
  from Cons.IH [OF this] show ?case using st by simp
qed

text \<open>
  C4. A target that is not, as a reference, an entry of the array given at construction
  is rejected: the call throws the error whose message ends in the name of the rejected
  object and the machine, and so what \<open>getCurrentState\<close> returns, is as before. A call
  throws exactly when the reference is absent from the array, whatever the names in the
  store are.
\<close>

theorem C4_transitionTo_rejects_by_identity:
  "(newState \<notin> set (states m) \<longrightarrow>
      transitionTo h newState m = (m, Some (Error (''Invalid state: '' @ name (h newState)))) \<and>
      getCurrentState (fst (transitionTo h newState m)) = getCurrentState m) \<and>
   (snd (transitionTo h newState m) \<noteq> None \<longleftrightarrow> newState \<notin> set (states m)) \<and>
   (snd (transitionTo h' newState m) \<noteq> None \<longleftrightarrow> snd (transitionTo h newState m) \<noteq> None)"
  by (simp add: transitionTo_def Let_def)

theorem C4_witness:
  "new_StateMachine demo_store [0, 1] =
     Inr \<lparr>states = [0, 1], currentState = 0, effects = [(10, 0)]\<rparr> \<and>
   name (demo_store 2) = name (demo_store 0) \<and>
   2 \<notin> set (states \<lparr>states = [0, 1], currentState = 0, effects = [(10, 0)]\<rparr>) \<and>
   transitionTo demo_store 2 \<lparr>states = [0, 1], currentState = 0, effects = [(10, 0)]\<rparr> =
     (\<lparr>states = [0, 1], currentState = 0, effects = [(10, 0)]\<rparr>, Some (Error ''Invalid state: A''))"
  using C4_transitionTo_rejects_by_identity
    [of 2 "\<lparr>states = [0, 1], currentState = 0, effects = [(10::nat, 0)]\<rparr>" demo_store demo_store]
  by (simp add: new_StateMachine_def demo_store_def call_opt_def)

text \<open>
  C5. Constructing from a non-empty array makes its first entry current and runs that
  entry's \<open>onEnter\<close>, if present, once and nothing else. A \<open>transitionTo\<close> whose target is
  in the array throws nothing, runs the \<open>onExit\<close> of the state that was current (if
  present) while that state is still current, then the \<open>onEnter\<close> of the target (if
  present) with the target already current, and leaves the target as what
  \<open>getCurrentState\<close> returns.
\<close>

theorem C5_enter_exit_order:
  "(sts \<noteq> [] \<longrightarrow>
      new_StateMachine h sts =
        Inr \<lparr>states = sts, currentState = hd sts,
             effects = (case onEnter (h (hd sts)) of None \<Rightarrow> [] | Some c \<Rightarrow> [(c, hd sts)])\<rparr>) \<and>
   (target \<in> set (states m) \<longrightarrow>
      snd (transitionTo h target m) = None \<and>
      getCurrentState (fst (transitionTo h target m)) = target \<and>
      states (fst (transitionTo h target m)) = states m \<and>
      effects (fst (transitionTo h target m)) =
        effects m
        @ (case onExit (h (currentState m)) of None \<Rightarrow> [] | Some c \<Rightarrow> [(c, currentState m)])
        @ (case onEnter (h target) of None \<Rightarrow> [] | Some c \<Rightarrow> [(c, target)]))"
proof (intro conjI impI)
  assume "sts \<noteq> []"
  then obtain s rest where "sts = s # rest" by (cases sts) auto
  then show "new_StateMachine h sts =
        Inr \<lparr>states = sts, currentState = hd sts,
             effects = (case onEnter (h (hd sts)) of None \<Rightarrow> [] | Some c \<Rightarrow> [(c, hd sts)])\<rparr>"
    by (simp add: new_StateMachine_def call_opt_def split: option.splits)
next
  assume mem: "target \<in> set (states m)"
  note acc = transitionTo_accept [OF mem, of h]
  show "snd (transitionTo h target m) = None" by (simp add: acc)
  show "getCurrentState (fst (transitionTo h target m)) = target"
    by (simp add: acc getCurrentState_def)
  show "states (fst (transitionTo h target m)) = states m" by (simp add: acc)
  show "effects (fst (transitionTo h target m)) =
        effects m
        @ (case onExit (h (currentState m)) of None \<Rightarrow> [] | Some c \<Rightarrow> [(c, currentState m)])
        @ (case onEnter (h target) of None \<Rightarrow> [] | Some c \<Rightarrow> [(c, target)])"
    by (simp add: acc call_opt_def split: option.splits)
qed

theorem C5_witness:
  "[0, 1] \<noteq> ([] :: ref list) \<and>
   new_StateMachine demo_store [0, 1] =
     Inr \<lparr>states = [0, 1], currentState = 0, effects = [(10, 0)]\<rparr> \<and>
   1 \<in> set (states \<lparr>states = [0, 1], currentState = 0, effects = [(10::nat, 0)]\<rparr>) \<and>
   transitionTo demo_store 1 \<lparr>states = [0, 1], currentState = 0, effects = [(10, 0)]\<rparr> =
     (\<lparr>states = [0, 1], currentState = 1, effects = [(10, 0), (11, 0), (20, 1)]\<rparr>, None)"
  using C5_enter_exit_order
    [of "[0, 1]" demo_store 1 "\<lparr>states = [0, 1], currentState = 0, effects = [(10::nat, 0)]\<rparr>"]
  by (simp add: demo_store_def getCurrentState_def prod_eq_iff)

text \<open>
  C6. After a construction that succeeds and after any sequence of \<open>transitionTo\<close> calls,
  throwing or not, the machine still holds the array it was given and the state that
  \<open>getCurrentState\<close> returns is an entry of that array.
\<close>

theorem C6_current_state_in_fixed_set:
  "new_StateMachine h sts = Inr m0 \<Longrightarrow>
   states (transitions h ts m0) = sts \<and>
   getCurrentState (transitions h ts m0) \<in> set sts"
proof -
  assume new: "new_StateMachine h sts = Inr m0"
  then have ne: "sts \<noteq> []" by (auto simp: new_StateMachine_def split: if_splits)
  with new have st: "states m0 = sts" and cur: "currentState m0 = sts ! 0"
    by (auto simp: new_StateMachine_def Let_def)
  from ne have "sts ! 0 \<in> set sts" by (cases sts) auto
  with st cur have "currentState m0 \<in> set (states m0)" by simp
  from transitions_inv [OF this, of h ts] st
  show ?thesis by (simp add: getCurrentState_def)
qed

theorem C6_witness:
  "new_StateMachine demo_store [0, 1] =
     Inr \<lparr>states = [0, 1], currentState = 0, effects = [(10, 0)]\<rparr> \<and>
   states (transitions demo_store [1, 2, 0, 7]
             \<lparr>states = [0, 1], currentState = 0, effects = [(10, 0)]\<rparr>) = [0, 1] \<and>
   getCurrentState (transitions demo_store [1, 2, 0, 7]
             \<lparr>states = [0, 1], currentState = 0, effects = [(10, 0)]\<rparr>) \<in> set [0, 1]"
proof -
  have new: "new_StateMachine demo_store [0, 1] =
     Inr \<lparr>states = [0, 1], currentState = 0, effects = [(10, 0)]\<rparr>"
    by (simp add: new_StateMachine_def demo_store_def call_opt_def)
  from C6_current_state_in_fixed_set [OF new, of "[1, 2, 0, 7]"] new
  show ?thesis by simp
qed

section \<open>Properties of SetStateAction and ComponentStateManager\<close>

lemma resolve_action_simps:
  "resolve_action callable (Updater f) cur = f cur"
  "callable v = None \<Longrightarrow> resolve_action callable (Literal v) cur = v"
  "callable v = Some g \<Longrightarrow> resolve_action callable (Literal v) cur = g cur"
  by (simp_all add: resolve_action_def)

lemma typeof_never_function: "typeof v \<noteq> ''function''"
  by (cases v) simp_all

lemma resolve_simps:
  "resolve (Literal v) cur = v"
  "resolve (Updater f) cur = f cur"
  by (simp_all add: resolve_def resolve_action_def jsval_callable_def)

lemma Component_setState_fields:
  "c_currentState (Component_setState callable a m) = resolve_action callable a (c_currentState m)"
  "c_listeners (Component_setState callable a m) = c_listeners m"
  "c_calls (Component_setState callable a m) = c_calls m @ c_listeners m"
  by (simp_all add: Component_setState_def Let_def)

lemma Component_setStates_state:
  "\<forall>v. Literal v \<in> set as \<longrightarrow> callable v = None \<Longrightarrow>
   c_currentState (Component_setStates callable as m) = fold_actions as (c_currentState m)"
proof (induction as arbitrary: m)
  case Nil
  then show ?case by simp
next
  case (Cons a as)
  from Cons.prems have rest: "\<forall>v. Literal v \<in> set as \<longrightarrow> callable v = None" by simp
  show ?case
  proof (cases a)
    case (Literal v)
    with Cons.prems have "callable v = None" by simp
    with Cons.IH [OF rest] Literal show ?thesis
      by (simp add: Component_setState_fields resolve_action_simps)
  next
    case (Updater f)
    with Cons.IH [OF rest] show ?thesis
      by (simp add: Component_setState_fields resolve_action_simps)
  qed
qed

lemma Component_setStates_listeners:
  "c_listeners (Component_setStates callable as m) = c_listeners m"
  by (induction as arbitrary: m) (simp_all add: Component_setState_fields)

text \<open>
  C8 fails as stated. Where the state type holds functions, \<open>setState\<close> given the
  function \<^verbatim>\<open>() => 42\<close> as a literal new state calls it, and \<open>getState\<close> returns
  \<open>42\<close>; the fold replaces the accumulated value with the literal.
\<close>

theorem C8_function_literal_is_called:
  "Component_getState
     (Component_setStates demo_callable [Literal (Fn 42)]
        (new_ComponentStateManager (Num 0) :: (demo_value, nat) ComponentStateManager)) = Num 42 \<and>
   fold_actions [Literal (Fn 42)] (Num 0) = Fn 42"
  by (simp add: Component_getState_def Component_setState_def new_ComponentStateManager_def
      resolve_action_def)

text \<open>
  C8, amended. Whatever the initial value and the list of actions, if no literal among
  the actions is itself a function, \<open>getState\<close> after the \<open>setState\<close> calls returns the
  actions folded over the initial value; the same holds from any manager, whatever
  listeners it has, for the value it holds. A literal that is a function is called with
  the current value, as an updater is, and what it returns becomes the state.
\<close>

theorem C8_get_after_sets_is_fold:
  "((\<forall>v. Literal v \<in> set as \<longrightarrow> callable v = None) \<longrightarrow>
      Component_getState
        (Component_setStates callable as
           (new_ComponentStateManager init :: ('a, 'l) ComponentStateManager))
        = fold_actions as init \<and>
      Component_getState (Component_setStates callable as (m :: ('a, 'l) ComponentStateManager))
        = fold_actions as (Component_getState m)) \<and>
   (callable v = Some g \<longrightarrow>
      Component_getState (Component_setState callable (Literal v) m) = g (Component_getState m))"
  by (simp add: Component_getState_def Component_setStates_state new_ComponentStateManager_def
      Component_setState_fields resolve_action_simps)

theorem C8_witness:
  "demo_callable (Num 5) = None \<and>
   Component_getState
     (Component_setStates demo_callable
        [Literal (Num 5), Updater (\<lambda>s. case s of Num n \<Rightarrow> Num (n + 1) | Fn k \<Rightarrow> s)]
        (new_ComponentStateManager (Num 0) :: (demo_value, nat) ComponentStateManager)) = Num 6 \<and>
   demo_callable (Fn 42) = Some (\<lambda>prev. Num 42) \<and>
   Component_getState
     (Component_setState demo_callable (Literal (Fn 42))
        (new_ComponentStateManager (Num 0) :: (demo_value, nat) ComponentStateManager)) = Num 42"
proof -
  let ?as = "[Literal (Num 5), Updater (\<lambda>s. case s of Num n \<Rightarrow> Num (n + 1) | Fn k \<Rightarrow> s)]"
  let ?m = "new_ComponentStateManager (Num 0) :: (demo_value, nat) ComponentStateManager"
  have h1: "\<forall>v. Literal v \<in> set ?as \<longrightarrow> demo_callable v = None" by simp
  have h2: "demo_callable (Fn 42) = Some (\<lambda>prev. Num 42)" by simp
  note inst = C8_get_after_sets_is_fold
    [where as = ?as and callable = demo_callable and init = "Num 0" and m = ?m
       and v = "Fn 42" and g = "\<lambda>prev. Num 42"]
  from inst h1 have a: "Component_getState (Component_setStates demo_callable ?as ?m) = Num 6"
    by simp
  from inst h2 have b: "Component_getState (Component_setState demo_callable (Literal (Fn 42)) ?m) = Num 42"
    by (simp add: Component_getState_def new_ComponentStateManager_def)
  from h2 a b show ?thesis by simp
qed

section \<open>Properties of the listener sets and call logs\<close>

lemma set_set_add: "set (set_add x xs) = insert x (set xs)"
  by (auto simp: set_add_def)

lemma distinct_set_add: "distinct xs \<Longrightarrow> distinct (set_add x xs)"
  by (simp add: set_add_def)

lemma set_set_delete: "set (set_delete x xs) = set xs - {x}"
  by (auto simp: set_delete_def)

lemma distinct_set_delete: "distinct xs \<Longrightarrow> distinct (set_delete x xs)"
  by (simp add: set_delete_def distinct_removeAll)

lemma set_delete_set_add_absent: "x \<notin> set (set_delete x (set_add x xs))"
  by (simp add: set_set_delete)

lemma set_add_all: "set (add_all src dst) = set src \<union> set dst"
  unfolding add_all_def
  by (induction src arbitrary: dst) (auto simp: set_set_add)

lemma distinct_add_all: "distinct dst \<Longrightarrow> distinct (add_all src dst)"
  unfolding add_all_def
  by (induction src arbitrary: dst) (simp_all add: distinct_set_add)

lemma add_all_Nil: "distinct src \<Longrightarrow> add_all src [] = src"
proof -
  have gen: "distinct (dst @ src) \<Longrightarrow> fold set_add src dst = dst @ src" for dst
  proof (induction src arbitrary: dst)
    case Nil
    then show ?case by simp
  next
    case (Cons x src)
    from Cons.prems have "set_add x dst = dst @ [x]" by (simp add: set_add_def)
    moreover from Cons.prems have "distinct ((dst @ [x]) @ src)" by simp
    ultimately show ?case using Cons.IH [of "dst @ [x]"] by simp
  qed
  assume "distinct src"
  then show ?thesis using gen [of "[]"] by (simp add: add_all_def)
qed

lemma add_all_absorbed: "set src \<subseteq> set dst \<Longrightarrow> add_all src dst = dst"
  unfolding add_all_def
  by (induction src arbitrary: dst) (simp_all add: set_add_def)

lemma times_called_append:
  "times_called l (xs @ ys) = times_called l xs + times_called l ys"
  by (simp add: times_called_def)

lemma times_called_Nil: "times_called l [] = 0"
  by (simp add: times_called_def)

lemma times_called_map:
  "times_called l (map (\<lambda>x. (x, v)) xs) = count_list xs l"
  by (induction xs) (simp_all add: times_called_def)

lemma count_list_distinct:
  "distinct xs \<Longrightarrow> count_list xs x = (if x \<in> set xs then 1 else 0)"
  by (induction xs) auto

lemma times_called_listeners:
  "distinct xs \<Longrightarrow> times_called l (map (\<lambda>x. (x, v)) xs) = (if l \<in> set xs then 1 else 0)"
  by (simp add: times_called_map count_list_distinct)

section \<open>Properties of GlobalStateManager\<close>

lemma Global_setState_fields:
  "g_currentState (Global_setState a m) = resolve a (g_currentState m)"
  "g_listeners (Global_setState a m) = g_listeners m"
  "g_calls (Global_setState a m) =
     g_calls m @ map (\<lambda>l. (l, resolve a (g_currentState m))) (g_listeners m)"
  by (simp_all add: Global_setState_def Let_def)

lemma Global_setStates_listeners:
  "g_listeners (Global_setStates as m) = g_listeners m"
  by (induction as arbitrary: m) (simp_all add: Global_setState_fields)

lemma Global_setStates_quiet:
  "l \<notin> set (g_listeners m) \<Longrightarrow>
   times_called l (g_calls (Global_setStates as m)) = times_called l (g_calls m)"
proof (induction as arbitrary: m)
  case Nil
  then show ?case by simp
next
  case (Cons a as)
  have "l \<notin> set (g_listeners (Global_setState a m))"
    using Cons.prems by (simp add: Global_setState_fields)
  from Cons.IH [OF this] Cons.prems show ?case
    by (simp add: Global_setState_fields times_called_append times_called_map)
qed

lemma Global_setStates_no_listeners:
  "g_listeners m = [] \<Longrightarrow> g_calls (Global_setStates as m) = g_calls m"
proof (induction as arbitrary: m)
  case Nil
  then show ?case by simp
next
  case (Cons a as)
  have "g_listeners (Global_setState a m) = []"
    using Cons.prems by (simp add: Global_setState_fields)
  from Cons.IH [OF this] Cons.prems show ?case
    by (simp add: Global_setState_fields)
qed

text \<open>What \<open>resetInstance\<close> does for a truthy argument: the new instance holds the
  argument and no listener, so that no \<open>setState\<close> on it calls anything.\<close>

lemma resetInstance_truthy:
  "truthy x \<Longrightarrow>
   Global_getState (snd (getInstance JUndefined (resetInstance x slot))) = x \<and>
   g_listeners (snd (getInstance JUndefined (resetInstance x slot))) = [] \<and>
   g_calls (Global_setStates as (snd (getInstance JUndefined (resetInstance x slot)))) = []"
proof -
  assume t: "truthy x"
  let ?i = "snd (getInstance JUndefined (resetInstance x slot))"
  have i: "?i = new_GlobalStateManager x"
    using t by (simp add: getInstance_def resetInstance_def js_or_def)
  have "g_listeners ?i = []" by (simp add: i new_GlobalStateManager_def)
  from Global_setStates_no_listeners [OF this, of as]
  show ?thesis
    by (simp add: i new_GlobalStateManager_def Global_getState_def)
qed

lemma resetInstance_discards_listeners:
  "g_listeners (snd (getInstance y (resetInstance x slot))) = [] \<and>
   g_calls (Global_setStates as (snd (getInstance y (resetInstance x slot)))) = []"
proof -
  let ?i = "snd (getInstance y (resetInstance x slot))"
  have i: "?i = new_GlobalStateManager (js_or x (JObj []))"
    by (simp add: getInstance_def resetInstance_def)
  have "g_listeners ?i = []" by (simp add: i new_GlobalStateManager_def)
  from Global_setStates_no_listeners [OF this, of as]
  show ?thesis by (simp add: i new_GlobalStateManager_def)
qed

text \<open>
  C7. The claim fails where the value given to \<open>resetInstance\<close> is falsy: after
  \<open>resetInstance(0)\<close> the instance that \<open>getInstance()\<close> returns holds the empty
  object, not \<open>0\<close>.
\<close>

theorem C7_resetInstance_zero_gives_empty_object:
  "Global_getState (snd (getInstance JUndefined (resetInstance (JNum 0) slot))) = JObj [] \<and>
   Global_getState (snd (getInstance JUndefined (resetInstance (JNum 0) slot))) \<noteq> JNum 0"
  by (simp add: getInstance_def resetInstance_def js_or_def new_GlobalStateManager_def
      Global_getState_def)

section \<open>Properties of ProxyStateManager\<close>

lemma is_Object_typeof: "is_Object v \<longleftrightarrow> typeof v = ''object'' \<and> v \<noteq> JNull"
  by (cases v) simp_all

lemma Proxy_setState_same:
  "JSON_stringify (state m) = JSON_stringify (resolve a (state m)) \<Longrightarrow> Proxy_setState a m = (m, None)"
  by (simp add: Proxy_setState_def Let_def)

lemma Proxy_setState_throws:
  "JSON_stringify (state m) \<noteq> JSON_stringify (resolve a (state m)) \<Longrightarrow>
   \<not> is_Object (resolve a (state m)) \<Longrightarrow> Proxy_setState a m = (m, Some TypeError)"
  by (simp add: Proxy_setState_def Let_def createProxy_def)

lemma Proxy_setState_notifies:
  "JSON_stringify (state m) \<noteq> JSON_stringify (resolve a (state m)) \<Longrightarrow>
   is_Object (resolve a (state m)) \<Longrightarrow> \<not> isBatchingUpdates m \<Longrightarrow>
   Proxy_setState a m =
     (m\<lparr>state := resolve a (state m),
        calls := calls m @ map (\<lambda>l. (l, resolve a (state m))) (listeners m)\<rparr>, None)"
  by (simp add: Proxy_setState_def Let_def createProxy_def notifyListeners_def)

lemma Proxy_setState_queues:
  "JSON_stringify (state m) \<noteq> JSON_stringify (resolve a (state m)) \<Longrightarrow>
   is_Object (resolve a (state m)) \<Longrightarrow> isBatchingUpdates m \<Longrightarrow>
   Proxy_setState a m =
     (m\<lparr>state := resolve a (state m),
        pendingNotifications := add_all (listeners m) (pendingNotifications m)\<rparr>, None)"
  by (simp add: Proxy_setState_def Let_def createProxy_def queueListeners_def)

lemma assign_listeners: "listeners (assign path v m) = listeners m"
  by (simp add: assign_def handler_set_def Let_def notifyListeners_def queueListeners_def
      split: list.split option.split)

lemma assign_isBatchingUpdates: "isBatchingUpdates (assign path v m) = isBatchingUpdates m"
  by (simp add: assign_def handler_set_def Let_def notifyListeners_def queueListeners_def
      split: list.split option.split)

lemma Proxy_setState_listeners: "listeners (fst (Proxy_setState a m)) = listeners m"
  by (simp add: Proxy_setState_def Let_def createProxy_def notifyListeners_def queueListeners_def)

lemma Proxy_setState_isBatchingUpdates:
  "isBatchingUpdates (fst (Proxy_setState a m)) = isBatchingUpdates m"
  by (simp add: Proxy_setState_def Let_def createProxy_def notifyListeners_def queueListeners_def)

lemma step_mutation_listeners: "is_mutation c \<Longrightarrow> listeners (step c m) = listeners m"
  by (cases c) (simp_all add: assign_listeners Proxy_setState_listeners)

lemma Proxy_setState_calls:
  "calls (fst (Proxy_setState a m)) =
     calls m @ (if detected_change (SetState a) m \<and> \<not> isBatchingUpdates m
                then map (\<lambda>l. (l, resolve a (state m))) (listeners m) else [])"
  by (simp add: Proxy_setState_def Let_def createProxy_def notifyListeners_def queueListeners_def)

lemma Proxy_setState_pending:
  "pendingNotifications (fst (Proxy_setState a m)) =
     (if detected_change (SetState a) m \<and> isBatchingUpdates m
      then add_all (listeners m) (pendingNotifications m) else pendingNotifications m)"
  by (simp add: Proxy_setState_def Let_def createProxy_def notifyListeners_def queueListeners_def)

lemma detected_change_Assign:
  "detected_change (Assign path v) m =
     (\<exists>k. path = [k] \<and> JSON_stringify (get_prop (state m) k) \<noteq> JSON_stringify v)"
  by (cases "(Assign path v :: 'a call, m)" rule: detected_change.cases) simp_all

lemma assign_calls:
  "calls (assign path v m) =
     calls m @ (if detected_change (Assign path v) m \<and> \<not> isBatchingUpdates m
                then map (\<lambda>l. (l, set_prop (state m) (hd path) v)) (listeners m) else [])"
  by (auto simp: detected_change_Assign assign_def handler_set_def Let_def notifyListeners_def
      queueListeners_def split: list.split option.split)

lemma assign_pending:
  "pendingNotifications (assign path v m) =
     (if detected_change (Assign path v) m \<and> isBatchingUpdates m
      then add_all (listeners m) (pendingNotifications m) else pendingNotifications m)"
  by (auto simp: detected_change_Assign assign_def handler_set_def Let_def notifyListeners_def
      queueListeners_def split: list.split option.split)

lemma step_mutation_quiet:
  "is_mutation c \<Longrightarrow> l \<notin> set (listeners m) \<Longrightarrow>
   times_called l (calls (step c m)) = times_called l (calls m)"
  by (cases c)
     (simp_all add: Proxy_setState_calls assign_calls times_called_append times_called_map
        times_called_Nil)

lemma run_mutations_quiet:
  "list_all is_mutation cs \<Longrightarrow> l \<notin> set (listeners m) \<Longrightarrow>
   times_called l (calls (run cs m)) = times_called l (calls m)"
proof (induction cs arbitrary: m)
  case Nil
  then show ?case by simp
next
  case (Cons c cs)
  from Cons.prems have mc: "is_mutation c" and rest: "list_all is_mutation cs" by simp_all
  have "l \<notin> set (listeners (step c m))"
    using Cons.prems(2) by (simp add: step_mutation_listeners [OF mc])
  from Cons.IH [OF rest this] step_mutation_quiet [OF mc Cons.prems(2)]
  show ?case by simp
qed


lemma endBatchUpdates_fields:
  "state (endBatchUpdates m) = state m"
  "listeners (endBatchUpdates m) = listeners m"
  "isBatchingUpdates (endBatchUpdates m) = False"
  "pendingNotifications (endBatchUpdates m) = []"
  "calls (endBatchUpdates m) = calls m @ map (\<lambda>l. (l, state m)) (pendingNotifications m)"
  by (simp_all add: endBatchUpdates_def Let_def)

lemma wf_new: "new_ProxyStateManager v = Inr m \<Longrightarrow> wf m \<and> is_Object (state m)"
  by (auto simp: new_ProxyStateManager_def createProxy_def wf_def split: if_splits)

lemma wf_step: "wf m \<Longrightarrow> wf (step c m)"
proof (cases c)
  case (SetState a)
  assume "wf m"
  then show ?thesis
    unfolding wf_def SetState
    by (auto simp: Proxy_setState_listeners Proxy_setState_pending
        Proxy_setState_isBatchingUpdates distinct_add_all)
next
  case (Assign path v)
  assume "wf m"
  then show ?thesis
    unfolding wf_def Assign
    by (auto simp: assign_listeners assign_pending assign_isBatchingUpdates distinct_add_all)
next
  case (Subscribe l)
  assume "wf m"
  then show ?thesis
    by (simp add: wf_def Subscribe Proxy_subscribe_def distinct_set_add)
next
  case (Unsubscribe l)
  assume "wf m"
  then show ?thesis
    by (simp add: wf_def Unsubscribe unsubscribe_def distinct_set_delete)
next
  case BeginBatchUpdates
  assume "wf m"
  then show ?thesis
    by (simp add: wf_def BeginBatchUpdates beginBatchUpdates_def)
next
  case EndBatchUpdates
  assume "wf m"
  then show ?thesis
    by (simp add: wf_def EndBatchUpdates endBatchUpdates_fields)
qed

lemma wf_run: "wf m \<Longrightarrow> wf (run cs m)"
  by (induction cs arbitrary: m) (simp_all add: wf_step)

lemma demo_manager_reachable:
  "new_ProxyStateManager demo_state =
     Inr \<lparr>state = demo_state, listeners = [], isBatchingUpdates = False,
          pendingNotifications = [], hasStateChanged = False, calls = []\<rparr> \<and>
   run [Subscribe 7, Subscribe 8]
     \<lparr>state = demo_state, listeners = [], isBatchingUpdates = False,
      pendingNotifications = [], hasStateChanged = False, calls = []\<rparr> = demo_manager"
  by (simp add: new_ProxyStateManager_def createProxy_def demo_state_def demo_manager_def
      Proxy_subscribe_def set_add_def)

lemmas stringify_eval = quote_def escape_char_def show_int_def digit_char_def

text \<open>
  C1. When the value that \<open>setState\<close> computes serializes as the current state does, the
  call leaves the manager as it was: the state is kept and no listener is called. When
  the serializations differ (the value being an object, no batch active, the listener set
  holding each listener once), the call throws nothing, the value becomes the state, and
  the new calls are one call of each subscribed listener, in order, with the new state:
  every subscribed listener is called once more and no other listener is called.
\<close>

theorem C1_setState_notifies_iff_serialization_differs:
  "(JSON_stringify (resolve action (state m)) = JSON_stringify (state m) \<longrightarrow>
      Proxy_setState action m = (m, None)) \<and>
   (JSON_stringify (resolve action (state m)) \<noteq> JSON_stringify (state m) \<and>
    is_Object (resolve action (state m)) \<and> \<not> isBatchingUpdates m \<and> distinct (listeners m) \<longrightarrow>
      snd (Proxy_setState action m) = None \<and>
      Proxy_getState (fst (Proxy_setState action m)) = resolve action (state m) \<and>
      listeners (fst (Proxy_setState action m)) = listeners m \<and>
      calls (fst (Proxy_setState action m)) =
        calls m @ map (\<lambda>l. (l, resolve action (state m))) (listeners m) \<and>
      (\<forall>l. times_called l (calls (fst (Proxy_setState action m))) =
            times_called l (calls m) + (if l \<in> set (listeners m) then 1 else 0)))"
proof (intro conjI impI)
  assume "JSON_stringify (resolve action (state m)) = JSON_stringify (state m)"
  then show "Proxy_setState action m = (m, None)"
    by (simp add: Proxy_setState_same)
next
  assume h: "JSON_stringify (resolve action (state m)) \<noteq> JSON_stringify (state m) \<and>
    is_Object (resolve action (state m)) \<and> \<not> isBatchingUpdates m \<and> distinct (listeners m)"
  then have eq: "Proxy_setState action m =
     (m\<lparr>state := resolve action (state m),
        calls := calls m @ map (\<lambda>l. (l, resolve action (state m))) (listeners m)\<rparr>, None)"
    using Proxy_setState_notifies [of m action] by auto
  show "snd (Proxy_setState action m) = None" by (simp add: eq)
  show "Proxy_getState (fst (Proxy_setState action m)) = resolve action (state m)"
    by (simp add: eq Proxy_getState_def)
  show "listeners (fst (Proxy_setState action m)) = listeners m" by (simp add: eq)
  show "calls (fst (Proxy_setState action m)) =
        calls m @ map (\<lambda>l. (l, resolve action (state m))) (listeners m)"
    by (simp add: eq)
  show "\<forall>l. times_called l (calls (fst (Proxy_setState action m))) =
            times_called l (calls m) + (if l \<in> set (listeners m) then 1 else 0)"
    using h by (simp add: eq times_called_append times_called_listeners)
qed

theorem C1_witness:
  "Proxy_setState (Literal demo_state) demo_manager = (demo_manager, None) \<and>
   JSON_stringify (JObj [(''count'', JNum 1)]) \<noteq> JSON_stringify (state demo_manager) \<and>
   is_Object (JObj [(''count'', JNum 1)]) \<and> \<not> isBatchingUpdates demo_manager \<and>
   distinct (listeners demo_manager) \<and>
   calls (fst (Proxy_setState (Updater (\<lambda>s. JObj [(''count'', JNum 1)])) demo_manager)) =
     [(7, JObj [(''count'', JNum 1)]), (8, JObj [(''count'', JNum 1)])] \<and>
   times_called 7 (calls (fst (Proxy_setState (Updater (\<lambda>s. JObj [(''count'', JNum 1)])) demo_manager))) = 1"
proof -
  have same: "JSON_stringify (resolve (Literal demo_state) (state demo_manager)) =
      JSON_stringify (state demo_manager)"
    by (simp add: resolve_simps demo_manager_def)
  have differ: "JSON_stringify (JObj [(''count'', JNum 1)]) \<noteq> JSON_stringify (state demo_manager)"
    by (simp add: demo_manager_def demo_state_def stringify_eval)
  have pre: "\<not> isBatchingUpdates demo_manager" "distinct (listeners demo_manager)"
      "calls demo_manager = []" "listeners demo_manager = [7, 8]"
    by (simp_all add: demo_manager_def)
  from C1_setState_notifies_iff_serialization_differs [of "Literal demo_state" demo_manager] same
  have a: "Proxy_setState (Literal demo_state) demo_manager = (demo_manager, None)"
    by blast
  from C1_setState_notifies_iff_serialization_differs
    [of "Updater (\<lambda>s. JObj [(''count'', JNum 1)])" demo_manager] differ pre
  have b: "calls (fst (Proxy_setState (Updater (\<lambda>s. JObj [(''count'', JNum 1)])) demo_manager)) =
     [(7, JObj [(''count'', JNum 1)]), (8, JObj [(''count'', JNum 1)])] \<and>
   times_called 7 (calls (fst (Proxy_setState (Updater (\<lambda>s. JObj [(''count'', JNum 1)])) demo_manager))) = 1"
    by (simp add: resolve_simps times_called_def)
  from a b differ pre show ?thesis by (simp add: times_called_def)
qed


text \<open>
  C2. From a well-formed manager, \<open>beginBatchUpdates(); setState(a); setState(b);
  endBatchUpdates()\<close>, where \<open>a\<close> and then \<open>b\<close> yield objects that serialize differently
  from the state before them, throws nothing; no listener is called before the flush; the
  flush calls each pending listener once with the state that \<open>b\<close> produced, so that every
  listener subscribed during the batch is called exactly once more; afterwards nothing is
  pending and batching is off.
\<close>

theorem C2_batch_of_two_sets_notifies_once:
  assumes wf: "wf m"
    and a_obj: "is_Object (resolve a (state m))"
    and b_obj: "is_Object (resolve b (resolve a (state m)))"
    and a_new: "JSON_stringify (resolve a (state m)) \<noteq> JSON_stringify (state m)"
    and b_new: "JSON_stringify (resolve b (resolve a (state m))) \<noteq> JSON_stringify (resolve a (state m))"
  shows "snd (Proxy_setState a (beginBatchUpdates m)) = None \<and>
         snd (Proxy_setState b (fst (Proxy_setState a (beginBatchUpdates m)))) = None \<and>
         calls (fst (Proxy_setState b (fst (Proxy_setState a (beginBatchUpdates m))))) = calls m \<and>
         calls (run [BeginBatchUpdates, SetState a, SetState b, EndBatchUpdates] m) =
           calls m @ map (\<lambda>l. (l, resolve b (resolve a (state m))))
                        (add_all (listeners m) (pendingNotifications m)) \<and>
         (\<not> isBatchingUpdates m \<longrightarrow>
            calls (run [BeginBatchUpdates, SetState a, SetState b, EndBatchUpdates] m) =
              calls m @ map (\<lambda>l. (l, resolve b (resolve a (state m)))) (listeners m)) \<and>
         (\<forall>l \<in> set (listeners m).
            times_called l (calls (run [BeginBatchUpdates, SetState a, SetState b, EndBatchUpdates] m)) =
            times_called l (calls m) + 1) \<and>
         Proxy_getState (run [BeginBatchUpdates, SetState a, SetState b, EndBatchUpdates] m) =
           resolve b (resolve a (state m)) \<and>
         pendingNotifications (run [BeginBatchUpdates, SetState a, SetState b, EndBatchUpdates] m) = [] \<and>
         \<not> isBatchingUpdates (run [BeginBatchUpdates, SetState a, SetState b, EndBatchUpdates] m)"
proof -
  let ?va = "resolve a (state m)"
  let ?vb = "resolve b ?va"
  let ?q = "add_all (listeners m) (pendingNotifications m)"
  let ?m1 = "beginBatchUpdates m"
  have m1: "state ?m1 = state m" "isBatchingUpdates ?m1" "listeners ?m1 = listeners m"
      "pendingNotifications ?m1 = pendingNotifications m" "calls ?m1 = calls m"
    by (simp_all add: beginBatchUpdates_def)
  have s2: "Proxy_setState a ?m1 = (?m1\<lparr>state := ?va, pendingNotifications := ?q\<rparr>, None)"
    using Proxy_setState_queues [of ?m1 a] a_obj a_new m1 by simp
  let ?m2 = "?m1\<lparr>state := ?va, pendingNotifications := ?q\<rparr>"
  have q_again: "add_all (listeners m) ?q = ?q"
    by (rule add_all_absorbed) (simp add: set_add_all)
  have s3: "Proxy_setState b ?m2 = (?m2\<lparr>state := ?vb\<rparr>, None)"
    using Proxy_setState_queues [of ?m2 b] b_obj b_new m1 q_again by simp
  let ?m3 = "?m2\<lparr>state := ?vb\<rparr>"
  let ?r = "run [BeginBatchUpdates, SetState a, SetState b, EndBatchUpdates] m"
  have runs: "?r = endBatchUpdates ?m3"
    by (simp add: s2 s3)
  have dq: "distinct ?q"
    using wf by (simp add: wf_def distinct_add_all)
  have c1: "snd (Proxy_setState a ?m1) = None" by (simp add: s2)
  have c2: "snd (Proxy_setState b (fst (Proxy_setState a ?m1))) = None" by (simp add: s2 s3)
  have c3: "calls (fst (Proxy_setState b (fst (Proxy_setState a ?m1)))) = calls m"
    by (simp add: s2 s3 m1)
  have c4: "calls ?r = calls m @ map (\<lambda>l. (l, ?vb)) ?q"
    unfolding runs by (simp add: endBatchUpdates_fields m1)
  have c4': "\<not> isBatchingUpdates m \<longrightarrow> calls ?r = calls m @ map (\<lambda>l. (l, ?vb)) (listeners m)"
    unfolding c4 using wf by (auto simp: wf_def add_all_Nil)
  have c5: "\<forall>l \<in> set (listeners m). times_called l (calls ?r) = times_called l (calls m) + 1"
    unfolding c4 using dq
    by (simp add: times_called_append times_called_listeners set_add_all)
  have c6: "Proxy_getState ?r = ?vb"
    unfolding runs by (simp add: endBatchUpdates_fields Proxy_getState_def)
  have c7: "pendingNotifications ?r = []"
    unfolding runs by (simp add: endBatchUpdates_fields)
  have c8: "\<not> isBatchingUpdates ?r"
    unfolding runs by (simp add: endBatchUpdates_fields)
  from c1 c2 c3 c4 c4' c5 c6 c7 c8 show ?thesis by blast
qed

lemmas manager_eval =
  Proxy_setState_def handler_set_def assign_def notifyListeners_def queueListeners_def
  createProxy_def beginBatchUpdates_def endBatchUpdates_def unsubscribe_def Proxy_subscribe_def
  set_add_def set_delete_def add_all_def resolve_simps Let_def

theorem C2_witness:
  "wf demo_manager \<and>
   is_Object (resolve (Literal (JObj [(''count'', JNum 40)])) (state demo_manager)) \<and>
   is_Object (resolve (Updater (\<lambda>s. set_prop s ''count'' (JNum 50)))
              (resolve (Literal (JObj [(''count'', JNum 40)])) (state demo_manager))) \<and>
   JSON_stringify (resolve (Literal (JObj [(''count'', JNum 40)])) (state demo_manager))
     \<noteq> JSON_stringify (state demo_manager) \<and>
   JSON_stringify (resolve (Updater (\<lambda>s. set_prop s ''count'' (JNum 50)))
              (resolve (Literal (JObj [(''count'', JNum 40)])) (state demo_manager)))
     \<noteq> JSON_stringify (resolve (Literal (JObj [(''count'', JNum 40)])) (state demo_manager)) \<and>
   calls (run [BeginBatchUpdates, SetState (Literal (JObj [(''count'', JNum 40)])),
               SetState (Updater (\<lambda>s. set_prop s ''count'' (JNum 50))), EndBatchUpdates]
            demo_manager) =
     [(7, JObj [(''count'', JNum 50)]), (8, JObj [(''count'', JNum 50)])]"
proof -
  let ?a = "Literal (JObj [(''count'', JNum 40)])"
  let ?b = "Updater (\<lambda>s. set_prop s ''count'' (JNum 50))"
  have h1: "wf demo_manager" by (simp add: wf_def demo_manager_def)
  have h2: "is_Object (resolve ?a (state demo_manager))" by (simp add: resolve_simps)
  have h3: "is_Object (resolve ?b (resolve ?a (state demo_manager)))" by (simp add: resolve_simps)
  have h4: "JSON_stringify (resolve ?a (state demo_manager)) \<noteq> JSON_stringify (state demo_manager)"
    by (simp add: resolve_simps demo_manager_def demo_state_def stringify_eval)
  have h5: "JSON_stringify (resolve ?b (resolve ?a (state demo_manager)))
     \<noteq> JSON_stringify (resolve ?a (state demo_manager))"
    by (simp add: resolve_simps stringify_eval)
  have pre: "calls demo_manager = []" "listeners demo_manager = [7, 8]"
     "pendingNotifications demo_manager = []"
    by (simp_all add: demo_manager_def)
  from C2_batch_of_two_sets_notifies_once [OF h1 h2 h3 h4 h5]
  have "calls (run [BeginBatchUpdates, SetState ?a, SetState ?b, EndBatchUpdates] demo_manager) =
     [(7, JObj [(''count'', JNum 50)]), (8, JObj [(''count'', JNum 50)])]"
    by (simp add: pre resolve_simps add_all_def set_add_def)
  with h1 h2 h3 h4 h5 show ?thesis by blast
qed


subsection \<open>Batches\<close>



text \<open>\<open>registered_at_change\<close> in other words: the calls split at a detected change at
  whose moment \<open>l\<close> is in the listener set.\<close>

lemma run_append: "run (cs @ ds) m = run ds (run cs m)"
  by (induction cs arbitrary: m) simp_all

lemma registered_at_change_iff:
  "registered_at_change l cs m \<longleftrightarrow>
     (\<exists>cs1 c cs2. cs = cs1 @ c # cs2 \<and> detected_change c (run cs1 m)
                   \<and> l \<in> set (listeners (run cs1 m)))"
proof (induction cs arbitrary: m)
  case Nil
  then show ?case by simp
next
  case (Cons d ds)
  show ?case
  proof
    assume "registered_at_change l (d # ds) m"
    then consider (now) "detected_change d m" "l \<in> set (listeners m)"
      | (later) "registered_at_change l ds (step d m)"
      by auto
    then show "\<exists>cs1 c cs2. d # ds = cs1 @ c # cs2 \<and> detected_change c (run cs1 m)
                   \<and> l \<in> set (listeners (run cs1 m))"
    proof cases
      case now
      then have "d # ds = [] @ d # ds \<and> detected_change d (run [] m)
                   \<and> l \<in> set (listeners (run [] m))"
        by simp
      then show ?thesis by blast
    next
      case later
      with Cons.IH [of "step d m"] obtain cs1 c cs2 where
        "ds = cs1 @ c # cs2" "detected_change c (run cs1 (step d m))"
        "l \<in> set (listeners (run cs1 (step d m)))"
        by blast
      then have "d # ds = (d # cs1) @ c # cs2 \<and> detected_change c (run (d # cs1) m)
                   \<and> l \<in> set (listeners (run (d # cs1) m))"
        by simp
      then show ?thesis by blast
    qed
  next
    assume "\<exists>cs1 c cs2. d # ds = cs1 @ c # cs2 \<and> detected_change c (run cs1 m)
                   \<and> l \<in> set (listeners (run cs1 m))"
    then obtain cs1 c cs2 where split: "d # ds = cs1 @ c # cs2"
      and ch: "detected_change c (run cs1 m)" and reg: "l \<in> set (listeners (run cs1 m))"
      by blast
    show "registered_at_change l (d # ds) m"
    proof (cases cs1)
      case Nil
      with split ch reg show ?thesis by simp
    next
      case (Cons e es)
      with split have "e = d" "ds = es @ c # cs2" by simp_all
      with ch reg Cons have "ds = es @ c # cs2 \<and> detected_change c (run es (step d m))
                   \<and> l \<in> set (listeners (run es (step d m)))"
        by simp
      then have "registered_at_change l ds (step d m)"
        using Cons.IH [of "step d m"] by blast
      then show ?thesis by simp
    qed
  qed
qed





section \<open>Cancelled subscriptions, in the three containers\<close>

lemma Component_setStates_silent:
  "l \<notin> set (c_listeners m) \<Longrightarrow>
   count_list (c_calls (Component_setStates callable as m)) l = count_list (c_calls m) l"
proof (induction as arbitrary: m)
  case Nil
  then show ?case by simp
next
  case (Cons a as)
  have "l \<notin> set (c_listeners (Component_setState callable a m))"
    using Cons.prems by (simp add: Component_setState_fields)
  from Cons.IH [OF this] Cons.prems show ?case
    by (simp add: Component_setState_fields)
qed

text \<open>
  C9. In each of the three containers, after \<open>subscribe(l)\<close> and at once the closure it
  returned, no sequence of state mutations (\<open>setState\<close> calls; for the proxy manager also
  assignments to the state, at any depth) adds a call of \<open>l\<close> to the log.
\<close>

theorem C9_unsubscribed_listener_is_never_called:
  "(case Component_subscribe l cm of (cm1, unsub) \<Rightarrow>
      count_list (c_calls (Component_setStates callable as (unsub cm1))) l = count_list (c_calls cm) l) \<and>
   (case Global_subscribe l gm of (gm1, unsub) \<Rightarrow>
      times_called l (g_calls (Global_setStates bs (unsub gm1))) = times_called l (g_calls gm)) \<and>
   (list_all is_mutation cs \<longrightarrow>
      (case Proxy_subscribe l pm of (pm1, unsub) \<Rightarrow>
         times_called l (calls (run cs (unsub pm1))) = times_called l (calls pm)))"
proof (intro conjI impI)
  let ?cm = "cm\<lparr>c_listeners := set_delete l (set_add l (c_listeners cm))\<rparr>"
  have "l \<notin> set (c_listeners ?cm)" by (simp add: set_delete_set_add_absent)
  from Component_setStates_silent [OF this, of callable as]
  show "case Component_subscribe l cm of (cm1, unsub) \<Rightarrow>
      count_list (c_calls (Component_setStates callable as (unsub cm1))) l = count_list (c_calls cm) l"
    by (simp add: Component_subscribe_def)
next
  let ?gm = "gm\<lparr>g_listeners := set_delete l (set_add l (g_listeners gm))\<rparr>"
  have "l \<notin> set (g_listeners ?gm)" by (simp add: set_delete_set_add_absent)
  from Global_setStates_quiet [OF this, of bs]
  show "case Global_subscribe l gm of (gm1, unsub) \<Rightarrow>
      times_called l (g_calls (Global_setStates bs (unsub gm1))) = times_called l (g_calls gm)"
    by (simp add: Global_subscribe_def)
next
  assume muts: "list_all is_mutation cs"
  let ?pm = "unsubscribe l (pm\<lparr>listeners := set_add l (listeners pm)\<rparr>)"
  have "l \<notin> set (listeners ?pm)"
    by (simp add: unsubscribe_def set_delete_set_add_absent)
  from run_mutations_quiet [OF muts this]
  show "case Proxy_subscribe l pm of (pm1, unsub) \<Rightarrow>
         times_called l (calls (run cs (unsub pm1))) = times_called l (calls pm)"
    by (simp add: Proxy_subscribe_def unsubscribe_def)
qed

theorem C9_witness:
  "list_all is_mutation [SetState (Literal (JObj [(''count'', JNum 1)])),
                         Assign [''count''] (JNum 2), Assign [''nested'', ''x''] (JNum 3) :: nat call] \<and>
   calls (run [SetState (Literal (JObj [(''count'', JNum 1)])),
               Assign [''count''] (JNum 2), Assign [''nested'', ''x''] (JNum 3)]
            (snd (Proxy_subscribe 7 demo_manager) (fst (Proxy_subscribe 7 demo_manager)))) =
     [(8, JObj [(''count'', JNum 1)]), (8, JObj [(''count'', JNum 2)])] \<and>
   times_called 7 (calls (run [SetState (Literal (JObj [(''count'', JNum 1)])),
               Assign [''count''] (JNum 2), Assign [''nested'', ''x''] (JNum 3)]
            (snd (Proxy_subscribe 7 demo_manager) (fst (Proxy_subscribe 7 demo_manager))))) = 0 \<and>
   c_calls (Component_setStates (\<lambda>n. None) [Literal 5, Updater (\<lambda>n. n + 1)]
            (snd (Component_subscribe 7 \<lparr>c_currentState = 0::int, c_listeners = [7, 8::nat], c_calls = []\<rparr>)
              (fst (Component_subscribe 7 \<lparr>c_currentState = 0::int, c_listeners = [7, 8::nat], c_calls = []\<rparr>))))
     = [8, 8] \<and>
   g_calls (Global_setStates [Literal (JNum 5)]
            (snd (Global_subscribe 7 \<lparr>g_currentState = JNum 0, g_listeners = [7, 8::nat], g_calls = []\<rparr>)
              (fst (Global_subscribe 7 \<lparr>g_currentState = JNum 0, g_listeners = [7, 8::nat], g_calls = []\<rparr>))))
     = [(8, JNum 5)]"
proof -
  let ?cs = "[SetState (Literal (JObj [(''count'', JNum 1)])),
              Assign [''count''] (JNum 2), Assign [''nested'', ''x''] (JNum 3)] :: nat call list"
  let ?cm = "\<lparr>c_currentState = 0::int, c_listeners = [7, 8::nat], c_calls = []\<rparr>"
  let ?gm = "\<lparr>g_currentState = JNum 0, g_listeners = [7, 8::nat], g_calls = []\<rparr>"
  have h: "list_all is_mutation ?cs" by simp
  have c0: "calls demo_manager = []" by (simp add: demo_manager_def)
  note inst = C9_unsubscribed_listener_is_never_called
    [where l = 7 and cm = ?cm and callable = "\<lambda>n. None"
       and as = "[Literal 5, Updater (\<lambda>n. n + 1)]" and gm = ?gm
       and bs = "[Literal (JNum 5)]" and cs = ?cs and pm = demo_manager]
  from inst h c0
  have p7: "times_called 7 (calls (run ?cs
            (snd (Proxy_subscribe 7 demo_manager) (fst (Proxy_subscribe 7 demo_manager))))) = 0"
    by (simp add: Proxy_subscribe_def times_called_Nil)
  have pc: "calls (run ?cs
            (snd (Proxy_subscribe 7 demo_manager) (fst (Proxy_subscribe 7 demo_manager)))) =
     [(8, JObj [(''count'', JNum 1)]), (8, JObj [(''count'', JNum 2)])]"
    by (simp add: manager_eval demo_manager_def demo_state_def stringify_eval)
  have cc: "c_calls (Component_setStates (\<lambda>n. None) [Literal 5, Updater (\<lambda>n. n + 1)]
            (snd (Component_subscribe 7 ?cm) (fst (Component_subscribe 7 ?cm)))) = [8, 8]"
    by (simp add: Component_subscribe_def Component_setState_def set_add_def set_delete_def Let_def)
  have gc: "g_calls (Global_setStates [Literal (JNum 5)]
            (snd (Global_subscribe 7 ?gm) (fst (Global_subscribe 7 ?gm)))) = [(8, JNum 5)]"
    by (simp add: Global_subscribe_def Global_setState_def set_add_def set_delete_def Let_def
        resolve_simps)
  from h p7 pc cc gc show ?thesis by blast
qed

section \<open>Assignments to the state of a ProxyStateManager\<close>




end
